theory Spec2Isabelle
  imports Complex_Main "HOL-Library.Log_Nat"
begin

section \<open>Locality sensitive hashing (lsh_parallel.py): the data model\<close>

text \<open>
  The class \<open>LSH\<close> of \<open>src/lsh_parallel.py\<close> is embedded function by function. The
  numeric library is modelled as far as the class uses it:
  \<^item> an \<open>ndarray\<close> is its shape together with its nested rows;
  \<^item> the entries of vectors and planes are 64-bit floats in the source; here they are the
    elements of any linearly ordered ring (\<open>int\<close>, \<open>rat\<close>, \<open>real\<close>), so products and sums
    are exact and there is no NaN; likewise \<open>np.log2\<close> is the exact logarithm;
  \<^item> the integer arrays are \<open>int64\<close>: every integer operation on them wraps (\<open>wrap64\<close>);
  \<^item> an exception is a value of type \<open>error\<close>, and a method that assigns to \<open>self\<close>
    returns the new object next to its result;
  \<^item> the draw of \<open>np.random.normal\<close> is an argument of the constructor;
  \<^item> running out of memory is not modelled.
\<close>

datatype error =
    TypeError | ValueError | OverflowError
  | InvalidConfiguration | DimensionMismatch | EmptyCorpus | IndexNotBuilt

text \<open>
  \<open>TypeError\<close>, \<open>ValueError\<close> and \<open>OverflowError\<close> are the exceptions the interpreter and
  the numeric library raise in the source. The other four are the error kinds the design
  document names; no statement of the source raises them.
\<close>

record 'a array2 =
  shape2 :: "nat \<times> nat"
  rows2 :: "'a list list"

record 'a array3 =
  shape3 :: "nat \<times> nat \<times> nat"
  mats3 :: "'a list list list"

definition wf2 :: "'a array2 \<Rightarrow> bool" where
  "wf2 a \<longleftrightarrow> length (rows2 a) = fst (shape2 a) \<and> (\<forall>r \<in> set (rows2 a). length r = snd (shape2 a))"

definition wf3 :: "'a array3 \<Rightarrow> bool" where
  "wf3 a \<longleftrightarrow>
     (case shape3 a of (U, D, P) \<Rightarrow>
        length (mats3 a) = U \<and>
        (\<forall>Y \<in> set (mats3 a). length Y = D \<and> (\<forall>r \<in> set Y. length r = P)))"

type_synonym index_map = "nat \<rightharpoonup> (int \<rightharpoonup> nat list)"

record 'a LSH =
  n_buckets :: int
  n_universes :: int
  planes :: "'a array3"
  hash_to_index_map :: "index_map option"

section \<open>The constructor\<close>

text \<open>
  \<open>math.floor(np.log2(max_buckets))\<close>. An integer outside the 64-bit ranges becomes an
  object array, on which \<open>np.log2\<close> raises \<open>TypeError\<close>; \<open>np.log2(0)\<close> is \<open>-inf\<close> and of a
  negative number \<open>nan\<close>, which \<open>math.floor\<close> refuses with \<open>OverflowError\<close> and
  \<open>ValueError\<close>.
\<close>

fun floor_log2 :: "nat \<Rightarrow> nat" where
  "floor_log2 n = (if n < 2 then 0 else Suc (floor_log2 (n div 2)))"

declare floor_log2.simps [simp del]

definition math_floor_log2 :: "int \<Rightarrow> error + nat" where
  "math_floor_log2 max_buckets =
     (if max_buckets < - (2 ^ 63) \<or> 2 ^ 64 \<le> max_buckets then Inl TypeError
      else if max_buckets = 0 then Inl OverflowError
      else if max_buckets < 0 then Inl ValueError
      else Inr (floor_log2 (nat max_buckets)))"

text \<open>
  \<open>np.random.normal(size=(n_universes, vector_dims, n_planes))\<close>: a negative dimension is
  a \<open>ValueError\<close>; otherwise the array holds the draw.
\<close>

definition random_normal :: "(nat \<Rightarrow> nat \<Rightarrow> nat \<Rightarrow> 'a) \<Rightarrow> int \<Rightarrow> int \<Rightarrow> nat \<Rightarrow> error + 'a array3" where
  "random_normal draw n_univ vector_dims n_planes =
     (if n_univ < 0 \<or> vector_dims < 0 then Inl ValueError
      else Inr \<lparr>shape3 = (nat n_univ, nat vector_dims, n_planes),
                mats3 = map (\<lambda>u. map (\<lambda>d. map (\<lambda>p. draw u d p) [0..<n_planes])
                                        [0..<nat vector_dims])
                            [0..<nat n_univ]\<rparr>)"

definition LSH_init :: "(nat \<Rightarrow> nat \<Rightarrow> nat \<Rightarrow> 'a) \<Rightarrow> int \<Rightarrow> int \<Rightarrow> int \<Rightarrow> error + 'a LSH" where
  "LSH_init draw vector_dims max_buckets n_univ =
     (case math_floor_log2 max_buckets of
        Inl e \<Rightarrow> Inl e
      | Inr n_planes \<Rightarrow>
          (case random_normal draw n_univ vector_dims n_planes of
             Inl e \<Rightarrow> Inl e
           | Inr pl \<Rightarrow>
               Inr \<lparr>n_buckets = 2 ^ n_planes, n_universes = n_univ, planes = pl,
                    hash_to_index_map = None\<rparr>))"

section \<open>Hashing\<close>

definition wrap64 :: "int \<Rightarrow> int" where
  "wrap64 x = (x + 2 ^ 63) mod 2 ^ 64 - 2 ^ 63"

definition sum64 :: "int list \<Rightarrow> int" where
  "sum64 xs = foldl (\<lambda>a b. wrap64 (a + b)) 0 xs"

definition dot :: "'a::linordered_idom list \<Rightarrow> 'a list \<Rightarrow> 'a" where
  "dot x y = sum_list (map2 (*) x y)"

definition column :: "nat \<Rightarrow> 'a list list \<Rightarrow> 'a list" where
  "column p Y = map (\<lambda>r. r ! p) Y"

text \<open>One slice of \<open>np.matmul\<close>: an (N, D) matrix times a (D, P) matrix.\<close>

definition matmul2 :: "nat \<Rightarrow> 'a::linordered_idom list list \<Rightarrow> 'a list list \<Rightarrow> 'a list list" where
  "matmul2 P X Y = map (\<lambda>x. map (\<lambda>p. dot x (column p Y)) [0..<P]) X"

definition is_nonnegative :: "'a::linordered_idom \<Rightarrow> int" where
  "is_nonnegative s = (if s \<ge> 0 then 1 else 0)"

definition np_power2 :: "nat list \<Rightarrow> int list" where
  "np_power2 exponents = map (\<lambda>e. wrap64 (2 ^ e)) exponents"

definition pack :: "int list \<Rightarrow> int list \<Rightarrow> int" where
  "pack powers bits = sum64 (map2 (\<lambda>p b. wrap64 (p * b)) powers bits)"

text \<open>
  \<open>get_hash_values\<close>. The input is a two-dimensional array: the source indexes it with
  \<open>[np.newaxis, :, :]\<close>, which a one-dimensional array refuses with \<open>IndexError\<close>, so a
  single vector is a batch of shape (1, D), as in the calls at the end of the file. \<open>np.matmul\<close> raises \<open>ValueError\<close> when the vectors' length is not
  the planes' second dimension. The sum runs over the last axis of an array of shape
  (universes, samples, planes), so the result has one row per universe.
\<close>

definition get_hash_values :: "'a::linordered_idom LSH \<Rightarrow> 'a array2 \<Rightarrow> error + int array2" where
  "get_hash_values self vectors =
     (case shape3 (planes self) of (U, D, P) \<Rightarrow>
        if snd (shape2 vectors) \<noteq> D then Inl ValueError
        else
          let vectors_expanded = replicate U (rows2 vectors);
              dot_product = map2 (matmul2 P) vectors_expanded (mats3 (planes self));
              sign_of_dot_product = map (map (map sgn)) dot_product;
              is_dot_product_nonnegative = map (map (map is_nonnegative)) sign_of_dot_product;
              binary_exponents = [0..<P];
              hash_values = map (map (pack (np_power2 binary_exponents))) is_dot_product_nonnegative
          in Inr \<lparr>shape2 = (U, fst (shape2 vectors)), rows2 = hash_values\<rparr>)"

section \<open>Building the index\<close>

text \<open>
  The index is a \<open>defaultdict\<close> of \<open>defaultdict(list)\<close>: reading a missing key stores the
  default under that key. \<open>dd_get m u h\<close> is \<open>m[u][h]\<close>: the list read and the dictionary
  after the read.
\<close>

definition dd_inner :: "index_map \<Rightarrow> nat \<Rightarrow> (int \<rightharpoonup> nat list)" where
  "dd_inner m u = (case m u of None \<Rightarrow> Map.empty | Some b \<Rightarrow> b)"

definition bucket :: "index_map \<Rightarrow> nat \<Rightarrow> int \<Rightarrow> nat list" where
  "bucket m u h = (case dd_inner m u h of None \<Rightarrow> [] | Some l \<Rightarrow> l)"

definition dd_get :: "index_map \<Rightarrow> nat \<Rightarrow> int \<Rightarrow> nat list \<times> index_map" where
  "dd_get m u h = (bucket m u h, m(u \<mapsto> (dd_inner m u)(h \<mapsto> bucket m u h)))"

definition dd_append :: "index_map \<Rightarrow> nat \<Rightarrow> int \<Rightarrow> nat \<Rightarrow> index_map" where
  "dd_append m u h i = m(u \<mapsto> (dd_inner m u)(h \<mapsto> bucket m u h @ [i]))"

definition np_T :: "'a array2 \<Rightarrow> 'a array2" where
  "np_T a =
     (case shape2 a of (U, N) \<Rightarrow>
        \<lparr>shape2 = (N, U), rows2 = map (\<lambda>i. map (\<lambda>r. r ! i) (rows2 a)) [0..<N]\<rparr>)"

definition store_sample :: "nat \<times> int list \<Rightarrow> index_map \<Rightarrow> index_map" where
  "store_sample = (\<lambda>(i, sample_hashes) m.
     fold (\<lambda>(universe_id, sample_hash_in_universe) m'.
             dd_append m' universe_id sample_hash_in_universe i)
          (enumerate 0 sample_hashes) m)"

text \<open>
  \<open>make_hash_table\<close> assigns the empty dictionary before it hashes, so the old index is
  gone also when hashing raises.
\<close>

definition make_hash_table :: "'a::linordered_idom LSH \<Rightarrow> 'a array2 \<Rightarrow> 'a LSH \<times> (error + unit)" where
  "make_hash_table self vectors =
     (let self1 = self\<lparr>hash_to_index_map := Some Map.empty\<rparr> in
      case get_hash_values self1 vectors of
        Inl e \<Rightarrow> (self1, Inl e)
      | Inr hash_values \<Rightarrow>
          (self1\<lparr>hash_to_index_map :=
                   Some (fold store_sample (enumerate 0 (rows2 (np_T hash_values))) Map.empty)\<rparr>,
           Inr ()))"

section \<open>Querying\<close>

text \<open>
  \<open>np.squeeze\<close> drops every axis of length one: a (1, 1) array becomes a scalar array,
  which cannot be iterated; an array with one axis of length one becomes a vector; any
  other array stays a matrix.
\<close>

datatype squeezed = Arr0 int | Arr1 "int list" | Arr2 "int list list"

definition np_squeeze :: "int array2 \<Rightarrow> squeezed" where
  "np_squeeze a =
     (case shape2 a of (U, M) \<Rightarrow>
        if U = 1 \<and> M = 1 then Arr0 (hd (hd (rows2 a)))
        else if U = 1 then Arr1 (hd (rows2 a))
        else if M = 1 then Arr1 (map hd (rows2 a))
        else Arr2 (rows2 a))"

text \<open>
  \<open>collections.Counter\<close> keeps its keys in the order of their first occurrence;
  \<open>most_common(n)\<close> is \<open>heapq.nlargest(n, items, key=count)\<close>, that is the first \<open>n\<close> items
  of the stable sort by descending count (none for \<open>n \<le> 0\<close>).
\<close>

fun count_elem :: "'k \<Rightarrow> ('k \<times> nat) list \<Rightarrow> ('k \<times> nat) list" where
  "count_elem k [] = [(k, 1)]"
| "count_elem k ((k', c) # rest) =
     (if k = k' then (k', Suc c) # rest else (k', c) # count_elem k rest)"

definition Counter :: "'k list \<Rightarrow> ('k \<times> nat) list" where
  "Counter xs = fold count_elem xs []"

definition most_common :: "int \<Rightarrow> ('k \<times> nat) list \<Rightarrow> ('k \<times> nat) list" where
  "most_common n counted = take (nat n) (sort_key (\<lambda>(k, c). - int c) counted)"

text \<open>The loop over the universes: the lists read so far and the dictionary.\<close>

fun collect :: "index_map \<Rightarrow> (nat \<times> int) list \<Rightarrow> nat list \<Rightarrow> index_map \<times> nat list" where
  "collect m [] similar_indices = (m, similar_indices)"
| "collect m ((universe_id, hash_value) # rest) similar_indices =
     (case dd_get m universe_id hash_value of
        (l, m') \<Rightarrow> collect m' rest (similar_indices @ l))"

definition ranked :: "nat list \<Rightarrow> int \<Rightarrow> nat list" where
  "ranked similar_indices n_most_common =
     map fst (most_common n_most_common (Counter similar_indices))"

text \<open>
  \<open>get_similar_samples_indices\<close>. With no index (\<open>None\<close>) the first subscript raises
  \<open>TypeError\<close>. When the squeezed hashes are still a matrix, the loop variable is a row,
  and using it as a key raises \<open>TypeError\<close> (unhashable) after \<open>hash_to_index_map[0]\<close> was
  read.
\<close>

definition get_similar_samples_indices ::
    "'a::linordered_idom LSH \<Rightarrow> 'a array2 \<Rightarrow> int \<Rightarrow> 'a LSH \<times> (error + nat list)" where
  "get_similar_samples_indices self vector n_most_common =
     (case get_hash_values self vector of
        Inl e \<Rightarrow> (self, Inl e)
      | Inr hash_values \<Rightarrow>
          (case np_squeeze hash_values of
             Arr0 x \<Rightarrow> (self, Inl TypeError)
           | Arr1 hs \<Rightarrow>
               (if hs = [] then (self, Inr (ranked [] n_most_common))
                else case hash_to_index_map self of
                       None \<Rightarrow> (self, Inl TypeError)
                     | Some m \<Rightarrow>
                         (case collect m (enumerate 0 hs) [] of
                            (m', similar_indices) \<Rightarrow>
                              (self\<lparr>hash_to_index_map := Some m'\<rparr>,
                               Inr (ranked similar_indices n_most_common))))
           | Arr2 rows \<Rightarrow>
               (if rows = [] then (self, Inr (ranked [] n_most_common))
                else case hash_to_index_map self of
                       None \<Rightarrow> (self, Inl TypeError)
                     | Some m \<Rightarrow>
                         (self\<lparr>hash_to_index_map := Some (m(0 \<mapsto> dd_inner m 0))\<rparr>,
                          Inl TypeError))))"

section \<open>Invariant, comparison of indexes, example data\<close>

text \<open>
  What the constructor establishes and no method changes: the planes are a well-formed
  array, the plane count is at most 63 (so no power of two wraps), and the two scalar
  fields agree with the shape of the planes.
\<close>

definition LSH_inv :: "'a LSH \<Rightarrow> bool" where
  "LSH_inv self \<longleftrightarrow>
     wf3 (planes self) \<and>
     (case shape3 (planes self) of (U, D, P) \<Rightarrow>
        P \<le> 63 \<and> n_buckets self = 2 ^ P \<and> n_universes self = int U)"

text \<open>
  \<open>index_grows m m'\<close>: \<open>m'\<close> is \<open>m\<close> up to keys added with an empty list. No key is lost
  and no stored list changes.
\<close>

definition index_grows :: "index_map \<Rightarrow> index_map \<Rightarrow> bool" where
  "index_grows m m' \<longleftrightarrow>
     dom m \<subseteq> dom m' \<and>
     (\<forall>u h. dd_inner m' u h = dd_inner m u h \<or>
            (dd_inner m u h = None \<and> dd_inner m' u h = Some []))"

text \<open>The bit of one plane, in the words of the design document.\<close>

definition plane_bit :: "'a::linordered_idom list \<Rightarrow> 'a list list \<Rightarrow> nat \<Rightarrow> int" where
  "plane_bit x Y p = (if 0 \<le> dot x (column p Y) then 1 else 0)"

text \<open>A sequence of queries on one object: each runs on the object the last one left.\<close>

fun run_queries :: "'a::linordered_idom LSH \<Rightarrow> ('a array2 \<times> int) list \<Rightarrow> 'a LSH" where
  "run_queries self [] = self"
| "run_queries self ((vector, n_most_common) # rest) =
     run_queries (fst (get_similar_samples_indices self vector n_most_common)) rest"

definition example_draw :: "nat \<Rightarrow> nat \<Rightarrow> nat \<Rightarrow> int" where
  "example_draw u d p = (if even (u + d + p) then 1 else - 1)"

section \<open>Properties\<close>


lemma floor_log2_bounds: "0 < n \<Longrightarrow> 2 ^ floor_log2 n \<le> n \<and> n < 2 * 2 ^ floor_log2 n"
proof (induction n rule: floor_log2.induct)
  case (1 n)
  show ?case
  proof (cases "n < 2")
    case True
    with 1(2) show ?thesis by (simp add: floor_log2.simps)
  next
    case False
    then have "0 < n div 2" by simp
    with 1(1) [OF False]
    have "2 ^ floor_log2 (n div 2) \<le> n div 2 \<and> n div 2 < 2 * 2 ^ floor_log2 (n div 2)"
      by simp
    with False show ?thesis
      by (simp add: floor_log2.simps [of n]) linarith
  qed
qed

lemma floor_log2_le_63:
  assumes "0 < n" and "n < 2 ^ 64"
  shows "floor_log2 n \<le> 63"
proof (rule ccontr)
  assume "\<not> floor_log2 n \<le> 63"
  then have "64 \<le> floor_log2 n" by simp
  then have "(2::nat) ^ 64 \<le> 2 ^ floor_log2 n" by (intro power_increasing) simp_all
  with floor_log2_bounds [OF assms(1)] assms(2) show False by linarith
qed


subsection \<open>The constructor\<close>

lemma LSH_init_Inr:
  "LSH_init draw vector_dims max_buckets n_univ = Inr lsh \<longleftrightarrow>
     0 < max_buckets \<and> max_buckets < 2 ^ 64 \<and> 0 \<le> vector_dims \<and> 0 \<le> n_univ \<and>
     lsh = \<lparr>n_buckets = 2 ^ floor_log2 (nat max_buckets), n_universes = n_univ,
            planes = \<lparr>shape3 = (nat n_univ, nat vector_dims, floor_log2 (nat max_buckets)),
                       mats3 = map (\<lambda>u. map (\<lambda>d. map (\<lambda>p. draw u d p)
                                                          [0..<floor_log2 (nat max_buckets)])
                                               [0..<nat vector_dims])
                                   [0..<nat n_univ]\<rparr>,
            hash_to_index_map = None\<rparr>"
  by (auto simp: LSH_init_def math_floor_log2_def random_normal_def split: sum.splits)

lemma LSH_init_inv:
  assumes "LSH_init draw vector_dims max_buckets n_univ = Inr lsh"
  shows "LSH_inv lsh"
proof -
  from assms have r: "0 < max_buckets" "max_buckets < 2 ^ 64" "0 \<le> n_univ"
    by (simp_all add: LSH_init_Inr)
  then have "0 < nat max_buckets" "nat max_buckets < 2 ^ 64"
    by (simp_all add: nat_less_iff)
  then have "floor_log2 (nat max_buckets) \<le> 63" by (rule floor_log2_le_63)
  with assms r(3) show ?thesis
    by (simp add: LSH_init_Inr LSH_inv_def wf3_def)
qed






subsection \<open>Hashing\<close>






lemma map2_replicate: "map2 f (replicate (length ys) x) ys = map (f x) ys"
  by (induction ys) simp_all

lemma is_nonnegative_sgn: "is_nonnegative (sgn d) = (if 0 \<le> d then 1 else 0)"
  by (simp add: is_nonnegative_def sgn_if)

lemma get_hash_values_rows:
  assumes "wf3 (planes self)" and "shape3 (planes self) = (U, D, P)"
    and "snd (shape2 vectors) = D"
  shows "get_hash_values self vectors =
    Inr \<lparr>shape2 = (U, fst (shape2 vectors)),
         rows2 = map (\<lambda>Y. map (\<lambda>x. pack (np_power2 [0..<P]) (map (plane_bit x Y) [0..<P]))
                               (rows2 vectors))
                     (mats3 (planes self))\<rparr>"
proof -
  from assms(1,2) have len: "length (mats3 (planes self)) = U" by (simp add: wf3_def)
  have dp: "map2 (matmul2 P) (replicate U (rows2 vectors)) (mats3 (planes self))
      = map (matmul2 P (rows2 vectors)) (mats3 (planes self))"
    using map2_replicate [of "matmul2 P" "mats3 (planes self)" "rows2 vectors"] len by simp
  have "get_hash_values self vectors =
    Inr \<lparr>shape2 = (U, fst (shape2 vectors)),
         rows2 = map (map (pack (np_power2 [0..<P])))
                  (map (map (map is_nonnegative))
                    (map (map (map sgn)) (map (matmul2 P (rows2 vectors)) (mats3 (planes self)))))\<rparr>"
    using assms(2,3) by (simp add: get_hash_values_def Let_def dp del: map_map)
  also have "map (map (pack (np_power2 [0..<P])))
                  (map (map (map is_nonnegative))
                    (map (map (map sgn)) (map (matmul2 P (rows2 vectors)) (mats3 (planes self)))))
     = map (\<lambda>Y. map (\<lambda>x. pack (np_power2 [0..<P]) (map (plane_bit x Y) [0..<P]))
                               (rows2 vectors))
                     (mats3 (planes self))"
    by (simp add: matmul2_def comp_def is_nonnegative_sgn plane_bit_def [abs_def])
  finally show ?thesis .
qed

lemma get_hash_values_wf:
  assumes "wf3 (planes self)" and "shape3 (planes self) = (U, D, P)"
    and "wf2 vectors" and "snd (shape2 vectors) = D"
    and "get_hash_values self vectors = Inr hv"
  shows "shape2 hv = (U, fst (shape2 vectors)) \<and> wf2 hv"
  using assms get_hash_values_rows [OF assms(1,2,4)]
  by (auto simp: wf2_def wf3_def)




text \<open>
  C1. The docstring of \<open>get_hash_values\<close> and the claim promise the shape
  (samples, universes). The function returns (universes, samples): for 2 vectors and
  3 universes the result has 3 rows of 2 codes.
\<close>

theorem get_hash_values_shape_example:
  "shape2 (projr (get_hash_values (projr (LSH_init example_draw 1 2 3))
            \<lparr>shape2 = (2, 1), rows2 = [[1], [- 1]]\<rparr>)) = (3, 2) \<and>
   rows2 (projr (get_hash_values (projr (LSH_init example_draw 1 2 3))
            \<lparr>shape2 = (2, 1), rows2 = [[1], [- 1]]\<rparr>)) = [[1, 0], [0, 1], [1, 0]]"
  by code_simp

subsection \<open>Building the index\<close>

lemma bucket_dd_append:
  "bucket (dd_append m u h i) u' h' = bucket m u' h' @ (if u' = u \<and> h' = h then [i] else [])"
  by (simp add: dd_append_def bucket_def dd_inner_def)

lemma fold_dd_append_bucket:
  "bucket (fold (\<lambda>(universe_id, sample_hash_in_universe) m'.
                   dd_append m' universe_id sample_hash_in_universe i)
                (enumerate k hs) m) u h
   = bucket m u h @ (if k \<le> u \<and> u < k + length hs \<and> hs ! (u - k) = h then [i] else [])"
proof (induction hs arbitrary: k m)
  case Nil
  then show ?case by simp
next
  case (Cons x xs)
  have "bucket (fold (\<lambda>(universe_id, sample_hash_in_universe) m'.
                   dd_append m' universe_id sample_hash_in_universe i)
                (enumerate k (x # xs)) m) u h
    = (bucket m u h @ (if u = k \<and> h = x then [i] else []))
      @ (if Suc k \<le> u \<and> u < Suc k + length xs \<and> xs ! (u - Suc k) = h then [i] else [])"
    by (simp add: Cons.IH bucket_dd_append)
  also have "\<dots> = bucket m u h
      @ (if k \<le> u \<and> u < k + length (x # xs) \<and> (x # xs) ! (u - k) = h then [i] else [])"
  proof (cases "u = k")
    case True
    then show ?thesis by auto
  next
    case False
    have "(k \<le> u \<and> u < k + length (x # xs) \<and> (x # xs) ! (u - k) = h)
        \<longleftrightarrow> (Suc k \<le> u \<and> u < Suc k + length xs \<and> xs ! (u - Suc k) = h)"
    proof (cases "k < u")
      case True
      then have "u - k = Suc (u - Suc k)" by simp
      then have "(x # xs) ! (u - k) = xs ! (u - Suc k)" by simp
      with True show ?thesis by auto
    next
      case False
      with \<open>u \<noteq> k\<close> show ?thesis by auto
    qed
    with False show ?thesis by simp
  qed
  finally show ?case .
qed

lemma store_sample_bucket:
  "bucket (store_sample (i, hs) m) u h
   = bucket m u h @ (if u < length hs \<and> hs ! u = h then [i] else [])"
  using fold_dd_append_bucket [of i 0 hs m u h] by (simp add: store_sample_def)

lemma fold_store_sample_bucket:
  "bucket (fold store_sample xs m) u h
   = bucket m u h @ concat (map (\<lambda>(i, hs). if u < length hs \<and> hs ! u = h then [i] else []) xs)"
proof (induction xs arbitrary: m)
  case Nil
  then show ?case by simp
next
  case (Cons x xs)
  obtain i hs where x: "x = (i, hs)" by (cases x)
  show ?case by (simp add: Cons.IH x store_sample_bucket)
qed

lemma concat_map_if_filter: "concat (map (\<lambda>x. if Q x then [x] else []) xs) = filter Q xs"
  by (induction xs) simp_all

lemma enumerate_map_upt: "enumerate 0 (map g [0..<N]) = map (\<lambda>i. (i, g i)) [0..<N]"
  by (simp add: enumerate_eq_zip zip_map2 zip_same_conv_map)

lemma bucket_empty: "bucket Map.empty u h = []"
  by (simp add: bucket_def dd_inner_def)

lemma built_bucket:
  assumes "shape2 hv = (U, N)"
  shows "bucket (fold store_sample (enumerate 0 (rows2 (np_T hv))) Map.empty) u h
     = filter (\<lambda>i. u < length (rows2 hv) \<and> rows2 hv ! u ! i = h) [0..<N]"
proof -
  have "rows2 (np_T hv) = map (\<lambda>i. map (\<lambda>r. r ! i) (rows2 hv)) [0..<N]"
    using assms by (simp add: np_T_def)
  then have "enumerate 0 (rows2 (np_T hv)) = map (\<lambda>i. (i, map (\<lambda>r. r ! i) (rows2 hv))) [0..<N]"
    by (simp only: enumerate_map_upt)
  then have "bucket (fold store_sample (enumerate 0 (rows2 (np_T hv))) Map.empty) u h
    = concat (map (\<lambda>i. if u < length (rows2 hv) \<and> rows2 hv ! u ! i = h then [i] else []) [0..<N])"
    by (simp add: fold_store_sample_bucket bucket_empty comp_def cong: conj_cong)
  then show ?thesis by (simp only: concat_map_if_filter)
qed

lemma make_hash_table_result:
  assumes "wf3 (planes self)" and "shape3 (planes self) = (U, D, P)"
    and "wf2 vectors" and "shape2 vectors = (N, D)"
  shows "\<exists>hv m. get_hash_values self vectors = Inr hv \<and>
           make_hash_table self vectors = (self\<lparr>hash_to_index_map := Some m\<rparr>, Inr ()) \<and>
           (\<forall>u h. bucket m u h = filter (\<lambda>i. u < U \<and> rows2 hv ! u ! i = h) [0..<N])"
proof -
  let ?self1 = "self\<lparr>hash_to_index_map := Some Map.empty\<rparr>"
  from assms(4) have d: "snd (shape2 vectors) = D" by simp
  from get_hash_values_rows [OF assms(1,2) d]
  obtain hv where hv: "get_hash_values self vectors = Inr hv" by blast
  have same: "get_hash_values ?self1 vectors = get_hash_values self vectors"
    by (simp add: get_hash_values_def split: prod.splits)
  from get_hash_values_wf [OF assms(1,2,3) d hv] assms(4)
  have sh: "shape2 hv = (U, N)" and wf: "wf2 hv" by simp_all
  then have len: "length (rows2 hv) = U" by (simp add: wf2_def)
  let ?m = "fold store_sample (enumerate 0 (rows2 (np_T hv))) Map.empty"
  have "make_hash_table self vectors = (self\<lparr>hash_to_index_map := Some ?m\<rparr>, Inr ())"
    by (simp add: make_hash_table_def Let_def same hv)
  moreover have "\<forall>u h. bucket ?m u h = filter (\<lambda>i. u < U \<and> rows2 hv ! u ! i = h) [0..<N]"
    using built_bucket [OF sh] len by simp
  ultimately show ?thesis using hv by blast
qed

text \<open>
  C8. After \<open>make_hash_table\<close> on a valid corpus of \<open>N\<close> vectors, in every universe each
  identifier below \<open>N\<close> is in the list of exactly one code, no list holds an identifier
  twice, and the lists hold nothing but identifiers below \<open>N\<close>. (\<open>bucket m u h\<close> is the
  list stored under code \<open>h\<close> of universe \<open>u\<close>, empty when nothing is stored.)
\<close>

theorem build_partitions_identifiers:
  assumes "LSH_inv self" and "shape3 (planes self) = (U, D, P)"
    and "wf2 vectors" and "shape2 vectors = (N, D)"
  shows "\<exists>self' m. make_hash_table self vectors = (self', Inr ()) \<and>
           hash_to_index_map self' = Some m \<and>
           (\<forall>u<U. (\<forall>i<N. \<exists>!h. i \<in> set (bucket m u h)) \<and>
                  (\<forall>h. distinct (bucket m u h) \<and> set (bucket m u h) \<subseteq> {..<N}))"
proof -
  from assms(1) have wf: "wf3 (planes self)" by (simp add: LSH_inv_def)
  from make_hash_table_result [OF wf assms(2,3,4)]
  obtain hv :: "int array2" and m
    where r: "make_hash_table self vectors = (self\<lparr>hash_to_index_map := Some m\<rparr>, Inr ())"
    and b: "\<And>u h. bucket m u h = filter (\<lambda>i. u < U \<and> rows2 hv ! u ! i = h) [0..<N]"
    by blast
  have "(\<forall>i<N. \<exists>!h. i \<in> set (bucket m u h)) \<and>
        (\<forall>h. distinct (bucket m u h) \<and> set (bucket m u h) \<subseteq> {..<N})" if "u < U" for u
    using that by (auto simp: b)
  with r show ?thesis by simp
qed

theorem build_partitions_identifiers_witness:
  "(\<exists>self' m. make_hash_table (projr (LSH_init example_draw 2 4 2))
            \<lparr>shape2 = (3, 2), rows2 = [[1, 1], [1, 2], [- 1, - 1]]\<rparr> = (self', Inr ()) \<and>
      hash_to_index_map self' = Some m \<and>
      (\<exists>!h. 2 \<in> set (bucket m 1 h)) \<and> distinct (bucket m 1 3) \<and>
      set (bucket m 1 3) \<subseteq> {..<3}) \<and>
   map (bucket (the (hash_to_index_map (fst (make_hash_table (projr (LSH_init example_draw 2 4 2))
            \<lparr>shape2 = (3, 2), rows2 = [[1, 1], [1, 2], [- 1, - 1]]\<rparr>)))) 1) [0, 1, 2, 3]
     = [[], [1], [], [0, 2]]"
proof -
  let ?L = "projr (LSH_init example_draw 2 4 2)"
  let ?V = "\<lparr>shape2 = (3, 2), rows2 = [[1, 1], [1, 2], [- 1, - 1::int]]\<rparr>"
  have "LSH_init example_draw 2 4 2 = Inr ?L"
    by (simp add: LSH_init_def math_floor_log2_def random_normal_def)
  then have inv: "LSH_inv ?L" by (rule LSH_init_inv)
  have sh: "shape3 (planes ?L) = (2, 2, 2)" by code_simp
  have wf: "wf2 ?V" by (simp add: wf2_def)
  have s2: "shape2 ?V = (3, 2)" by simp
  have ev: "map (bucket (the (hash_to_index_map (fst (make_hash_table ?L ?V)))) 1) [0, 1, 2, 3]
     = [[], [1], [], [0, 2]]"
    by code_simp
  from build_partitions_identifiers [OF inv sh wf s2]
  obtain self' m where "make_hash_table ?L ?V = (self', Inr ())"
    and "hash_to_index_map self' = Some m"
    and "\<forall>u<2. (\<forall>i<3. \<exists>!h. i \<in> set (bucket m u h)) \<and>
                  (\<forall>h. distinct (bucket m u h) \<and> set (bucket m u h) \<subseteq> {..<3})"
    by blast
  then have "make_hash_table ?L ?V = (self', Inr ()) \<and>
      hash_to_index_map self' = Some m \<and>
      (\<exists>!h. 2 \<in> set (bucket m 1 h)) \<and> distinct (bucket m 1 3) \<and>
      set (bucket m 1 3) \<subseteq> {..<3}"
    by simp
  then show ?thesis using ev by blast
qed

text \<open>
  C5, as the code has it. \<open>make_hash_table\<close> on a corpus with no vectors (of the right
  length) raises nothing: it returns normally and leaves an empty dictionary as index.
\<close>

theorem build_empty_corpus_succeeds:
  assumes "shape3 (planes self) = (U, D, P)" and "shape2 vectors = (0, D)"
  shows "make_hash_table self vectors = (self\<lparr>hash_to_index_map := Some Map.empty\<rparr>, Inr ())"
  using assms by (simp add: make_hash_table_def get_hash_values_def Let_def np_T_def)

theorem build_empty_corpus_succeeds_witness:
  "shape3 (planes (projr (LSH_init example_draw 2 4 2))) = (2, 2, 2) \<and>
   make_hash_table (projr (LSH_init example_draw 2 4 2)) \<lparr>shape2 = (0, 2), rows2 = []\<rparr>
     = ((projr (LSH_init example_draw 2 4 2))\<lparr>hash_to_index_map := Some Map.empty\<rparr>, Inr ())"
proof -
  have sh: "shape3 (planes (projr (LSH_init example_draw 2 4 2))) = (2, 2, 2)" by code_simp
  from build_empty_corpus_succeeds [OF sh, of "\<lparr>shape2 = (0, 2), rows2 = []\<rparr>"] sh
  show ?thesis by simp
qed

text \<open>
  C5, as the claim states it, fails: on a corpus of shape (0, 2) the result is not an
  \<open>EmptyCorpus\<close> error, it is no error at all.
\<close>

theorem build_empty_corpus_no_error:
  "snd (make_hash_table (projr (LSH_init example_draw 2 4 2)) \<lparr>shape2 = (0, 2), rows2 = []\<rparr>)
     = Inr () \<and>
   snd (make_hash_table (projr (LSH_init example_draw 2 4 2)) \<lparr>shape2 = (0, 2), rows2 = []\<rparr>)
     \<noteq> Inl EmptyCorpus"
  by code_simp

subsection \<open>Querying\<close>

lemma index_grows_refl: "index_grows m m"
  by (simp add: index_grows_def)

lemma index_grows_trans:
  assumes "index_grows m1 m2" and "index_grows m2 m3"
  shows "index_grows m1 m3"
  unfolding index_grows_def
proof (intro conjI allI)
  from assms have "dom m1 \<subseteq> dom m2" "dom m2 \<subseteq> dom m3" by (simp_all add: index_grows_def)
  then show "dom m1 \<subseteq> dom m3" by (rule subset_trans)
  fix u h
  from assms(1) have a: "dd_inner m2 u h = dd_inner m1 u h \<or>
      (dd_inner m1 u h = None \<and> dd_inner m2 u h = Some [])"
    by (simp add: index_grows_def)
  from assms(2) have b: "dd_inner m3 u h = dd_inner m2 u h \<or>
      (dd_inner m2 u h = None \<and> dd_inner m3 u h = Some [])"
    by (simp add: index_grows_def)
  from a b show "dd_inner m3 u h = dd_inner m1 u h \<or>
      (dd_inner m1 u h = None \<and> dd_inner m3 u h = Some [])"
    by auto
qed

lemma index_grows_bucket: "index_grows m m' \<Longrightarrow> bucket m' u h = bucket m u h"
  unfolding index_grows_def bucket_def
  by (erule conjE, drule spec [of _ u], drule spec [of _ h]) auto

lemma index_grows_dd_get: "index_grows m (snd (dd_get m u h))"
  by (auto simp: index_grows_def dd_get_def dd_inner_def bucket_def split: option.splits)

lemma index_grows_touch: "index_grows m (m(u \<mapsto> dd_inner m u))"
  by (auto simp: index_grows_def dd_inner_def split: option.splits)

lemma collect_result:
  "collect m ps acc = (m', sim) \<Longrightarrow>
     sim = acc @ concat (map (\<lambda>(u, h). bucket m u h) ps) \<and> index_grows m m'"
proof (induction ps arbitrary: m acc)
  case Nil
  then show ?case by (simp add: index_grows_refl)
next
  case (Cons p ps)
  obtain u h where p: "p = (u, h)" by (cases p)
  let ?m1 = "snd (dd_get m u h)"
  from Cons.prems have c: "collect ?m1 ps (acc @ bucket m u h) = (m', sim)"
    by (simp add: p dd_get_def)
  have g: "index_grows m ?m1" by (rule index_grows_dd_get)
  from Cons.IH [OF c]
  have s: "sim = (acc @ bucket m u h) @ concat (map (\<lambda>(u, h). bucket ?m1 u h) ps)"
    and g': "index_grows ?m1 m'" by simp_all
  have "map (\<lambda>(u, h). bucket ?m1 u h) ps = map (\<lambda>(u, h). bucket m u h) ps"
    by (rule map_cong [OF refl]) (auto simp: index_grows_bucket [OF g])
  with s index_grows_trans [OF g g'] show ?case by (simp add: p)
qed

text \<open>What a query does to the object and where the identifiers it returns come from.\<close>

lemma query_built:
  assumes "hash_to_index_map self = Some m"
  shows "\<exists>m'. fst (get_similar_samples_indices self vector k) = self\<lparr>hash_to_index_map := Some m'\<rparr> \<and>
           index_grows m m' \<and>
           (\<forall>ids. snd (get_similar_samples_indices self vector k) = Inr ids \<longrightarrow>
              (\<exists>sim. ids = ranked sim k \<and> set sim \<subseteq> (\<Union>u h. set (bucket m u h))))"
proof -
  have self: "self\<lparr>hash_to_index_map := Some m\<rparr> = self" using assms by simp
  have triv: "\<exists>sim. ranked [] k = ranked sim k \<and> set sim \<subseteq> (\<Union>u h. set (bucket m u h))"
    by (rule exI [of _ "[]"]) simp
  show ?thesis
  proof (cases "get_hash_values self vector")
    case (Inl e)
    then show ?thesis
      using self index_grows_refl [of m]
      by (auto simp: get_similar_samples_indices_def intro!: exI [of _ m])
  next
    case (Inr hv)
    show ?thesis
    proof (cases "np_squeeze hv")
      case (Arr0 x)
      then show ?thesis
        using Inr self index_grows_refl [of m]
        by (auto simp: get_similar_samples_indices_def intro!: exI [of _ m])
    next
      case (Arr1 hs)
      show ?thesis
      proof (cases "hs = []")
        case True
        then show ?thesis
          using Inr Arr1 self index_grows_refl [of m] triv
          by (auto simp: get_similar_samples_indices_def intro!: exI [of _ m])
      next
        case False
        obtain m' sim where c: "collect m (enumerate 0 hs) [] = (m', sim)"
          by (cases "collect m (enumerate 0 hs) []")
        from collect_result [OF c]
        have s: "sim = concat (map (\<lambda>(u, h). bucket m u h) (enumerate 0 hs))"
          and g: "index_grows m m'" by simp_all
        from s have "set sim \<subseteq> (\<Union>u h. set (bucket m u h))" by auto
        then show ?thesis
          using Inr Arr1 False assms c g
          by (auto simp: get_similar_samples_indices_def intro!: exI [of _ m'])
      qed
    next
      case (Arr2 rows)
      show ?thesis
      proof (cases "rows = []")
        case True
        then show ?thesis
          using Inr Arr2 self index_grows_refl [of m] triv
          by (auto simp: get_similar_samples_indices_def intro!: exI [of _ m])
      next
        case False
        then show ?thesis
          using Inr Arr2 assms index_grows_touch [of m 0]
          by (auto simp: get_similar_samples_indices_def intro!: exI [of _ "m(0 \<mapsto> dd_inner m 0)"])
      qed
    qed
  qed
qed

lemma count_elem_keys:
  "map fst (count_elem k al) = (if k \<in> fst ` set al then map fst al else map fst al @ [k])"
  by (induction al) (auto split: if_splits)

lemma fold_count_elem_keys:
  "distinct (map fst al) \<Longrightarrow>
     distinct (map fst (fold count_elem xs al)) \<and>
     set (map fst (fold count_elem xs al)) = set (map fst al) \<union> set xs"
proof (induction xs arbitrary: al)
  case Nil
  then show ?case by simp
next
  case (Cons x xs)
  have d: "distinct (map fst (count_elem x al))"
    using Cons.prems by (simp add: count_elem_keys)
  have s: "set (map fst (count_elem x al)) = insert x (set (map fst al))"
    by (auto simp: count_elem_keys)
  from Cons.IH [OF d] s show ?case by simp
qed

lemma Counter_keys: "distinct (map fst (Counter xs)) \<and> set (map fst (Counter xs)) = set xs"
  using fold_count_elem_keys [of "[]" xs] by (simp add: Counter_def)

lemma ranked_distinct: "distinct (ranked xs k)"
proof -
  let ?C = "Counter xs"
  let ?S = "sort_key (\<lambda>(k, c). - int c) ?C"
  from Counter_keys [of xs] have "distinct (map fst ?C)" by simp
  then have "distinct ?C" and "inj_on fst (set ?C)" by (simp_all add: distinct_map)
  then have "distinct (map fst ?S)" by (simp add: distinct_map)
  then have "distinct (take (nat k) (map fst ?S))" by (rule distinct_take)
  then show ?thesis by (simp add: ranked_def most_common_def take_map)
qed

lemma ranked_subset: "set (ranked xs k) \<subseteq> set xs"
proof -
  let ?C = "Counter xs"
  let ?S = "sort_key (\<lambda>(k, c). - int c) ?C"
  have "set (ranked xs k) = set (take (nat k) (map fst ?S))"
    by (simp add: ranked_def most_common_def take_map)
  also have "\<dots> \<subseteq> set (map fst ?S)" by (rule set_take_subset)
  also have "\<dots> = set (map fst ?C)" by simp
  also have "\<dots> = set xs" using Counter_keys [of xs] by simp
  finally show ?thesis .
qed

lemma run_queries_index:
  "hash_to_index_map self = Some m \<Longrightarrow>
     \<exists>m'. hash_to_index_map (run_queries self qs) = Some m' \<and> index_grows m m'"
proof (induction qs arbitrary: self m)
  case Nil
  then show ?case by (auto intro: index_grows_refl)
next
  case (Cons q qs)
  obtain vector k where q: "q = (vector, k)" by (cases q)
  from query_built [OF Cons.prems, of vector k]
  obtain m1 where f: "fst (get_similar_samples_indices self vector k) = self\<lparr>hash_to_index_map := Some m1\<rparr>"
    and g: "index_grows m m1" by blast
  from f have "hash_to_index_map (fst (get_similar_samples_indices self vector k)) = Some m1"
    by simp
  from Cons.IH [OF this, of] obtain m' where
    "hash_to_index_map (run_queries (fst (get_similar_samples_indices self vector k)) qs) = Some m'"
    and "index_grows m1 m'" by blast
  with g show ?case by (auto simp: q intro: index_grows_trans)
qed

lemma make_hash_table_index:
  "\<exists>m. hash_to_index_map (fst (make_hash_table self vectors)) = Some m"
  by (cases "get_hash_values (self\<lparr>hash_to_index_map := Some Map.empty\<rparr>) vectors")
    (simp_all add: make_hash_table_def Let_def)

lemma example_lsh:
  "LSH_init example_draw 2 4 2 = Inr (projr (LSH_init example_draw 2 4 2))"
  "LSH_inv (projr (LSH_init example_draw 2 4 2))"
  "shape3 (planes (projr (LSH_init example_draw 2 4 2))) = (2, 2, 2)"
  "hash_to_index_map (projr (LSH_init example_draw 2 4 2)) = None"
proof -
  show a: "LSH_init example_draw 2 4 2 = Inr (projr (LSH_init example_draw 2 4 2))"
    by (simp add: LSH_init_def math_floor_log2_def random_normal_def)
  then show "LSH_inv (projr (LSH_init example_draw 2 4 2))" by (rule LSH_init_inv)
  show "shape3 (planes (projr (LSH_init example_draw 2 4 2))) = (2, 2, 2)" by code_simp
  show "hash_to_index_map (projr (LSH_init example_draw 2 4 2)) = None"
    by (simp add: LSH_init_def math_floor_log2_def random_normal_def)
qed

text \<open>
  C3, as the code has it. On an object whose index was never built, a query with one
  vector of the right length raises \<open>TypeError\<close> when there is at least one universe, and
  leaves the object as it was.
\<close>

theorem query_before_build_TypeError:
  assumes "hash_to_index_map self = None"
    and "LSH_inv self" and "shape3 (planes self) = (U, D, P)" and "0 < U"
    and "wf2 vector" and "shape2 vector = (1, D)"
  shows "get_similar_samples_indices self vector k = (self, Inl TypeError)"
proof -
  from assms(2) have w3: "wf3 (planes self)" by (simp add: LSH_inv_def)
  from assms(6) have d: "snd (shape2 vector) = D" by simp
  from get_hash_values_rows [OF w3 assms(3) d]
  obtain hv where hv: "get_hash_values self vector = Inr hv" by blast
  from get_hash_values_wf [OF w3 assms(3,5) d hv] assms(6)
  have sh: "shape2 hv = (U, 1)" and wf: "wf2 hv" by simp_all
  then have len: "length (rows2 hv) = U" by (simp add: wf2_def)
  show ?thesis
  proof (cases "U = 1")
    case True
    with sh hv show ?thesis
      by (simp add: get_similar_samples_indices_def np_squeeze_def)
  next
    case False
    with assms(4) len have "map hd (rows2 hv) \<noteq> []" by auto
    with False sh hv assms(1) show ?thesis
      by (simp add: get_similar_samples_indices_def np_squeeze_def)
  qed
qed

theorem query_before_build_TypeError_witness:
  "get_similar_samples_indices (projr (LSH_init example_draw 2 4 2))
      \<lparr>shape2 = (1, 2), rows2 = [[1, 1]]\<rparr> 5
   = (projr (LSH_init example_draw 2 4 2), Inl TypeError)"
proof -
  have wf: "wf2 \<lparr>shape2 = (1, 2), rows2 = [[1, 1::int]]\<rparr>" by (simp add: wf2_def)
  show ?thesis
    by (rule query_before_build_TypeError [OF example_lsh(4) example_lsh(2) example_lsh(3) _ wf])
      simp_all
qed

text \<open>
  C3, as the claim states it, fails: the error is \<open>TypeError\<close>, not \<open>IndexNotBuilt\<close>.
\<close>

theorem query_before_build_not_IndexNotBuilt:
  "snd (get_similar_samples_indices (projr (LSH_init example_draw 2 4 2))
      \<lparr>shape2 = (1, 2), rows2 = [[1, 1]]\<rparr> 5) = Inl TypeError \<and>
   snd (get_similar_samples_indices (projr (LSH_init example_draw 2 4 2))
      \<lparr>shape2 = (1, 2), rows2 = [[1, 1]]\<rparr> 5) \<noteq> Inl IndexNotBuilt"
  by code_simp

text \<open>
  C4, as the code has it. A query on a built index keeps every key and every stored
  list, so every bucket reads as before; it can add keys, each with an empty list,
  because reading a missing key of a \<open>defaultdict\<close> stores the default.
\<close>

theorem query_only_adds_empty_lists:
  assumes "hash_to_index_map self = Some m"
  shows "\<exists>m'. fst (get_similar_samples_indices self vector k) = self\<lparr>hash_to_index_map := Some m'\<rparr> \<and>
           index_grows m m' \<and> (\<forall>u h. bucket m' u h = bucket m u h)"
proof -
  from query_built [OF assms, of vector k]
  obtain m' where "fst (get_similar_samples_indices self vector k) = self\<lparr>hash_to_index_map := Some m'\<rparr>"
    and "index_grows m m'" by blast
  then show ?thesis by (auto simp: index_grows_bucket)
qed

theorem query_only_adds_empty_lists_witness:
  "\<exists>m m'. hash_to_index_map (fst (make_hash_table (projr (LSH_init example_draw 2 4 2))
              \<lparr>shape2 = (3, 2), rows2 = [[1, 1], [1, 2], [- 1, - 1]]\<rparr>)) = Some m \<and>
     hash_to_index_map (fst (get_similar_samples_indices
        (fst (make_hash_table (projr (LSH_init example_draw 2 4 2))
              \<lparr>shape2 = (3, 2), rows2 = [[1, 1], [1, 2], [- 1, - 1]]\<rparr>))
        \<lparr>shape2 = (1, 2), rows2 = [[- 1, - 2]]\<rparr> 5)) = Some m' \<and>
     index_grows m m' \<and> bucket m' 0 3 = bucket m 0 3"
proof -
  let ?B = "fst (make_hash_table (projr (LSH_init example_draw 2 4 2))
              \<lparr>shape2 = (3, 2), rows2 = [[1, 1], [1, 2], [- 1, - 1::int]]\<rparr>)"
  obtain m where m: "hash_to_index_map ?B = Some m"
    using make_hash_table_index by blast
  from query_only_adds_empty_lists [OF m, of "\<lparr>shape2 = (1, 2), rows2 = [[- 1, - 2]]\<rparr>" 5]
  obtain m' where "fst (get_similar_samples_indices ?B \<lparr>shape2 = (1, 2), rows2 = [[- 1, - 2]]\<rparr> 5)
      = ?B\<lparr>hash_to_index_map := Some m'\<rparr>"
    and "index_grows m m'" and "\<forall>u h. bucket m' u h = bucket m u h" by blast
  with m show ?thesis by simp
qed

text \<open>
  C4, as the claim states it, fails: the index is not identical after a query. In the
  example, code 1 of universe 0 is not a key before the query and is a key, with an empty
  list, after it.
\<close>

theorem query_adds_key_to_index:
  "dd_inner (the (hash_to_index_map (fst (make_hash_table (projr (LSH_init example_draw 2 4 2))
              \<lparr>shape2 = (3, 2), rows2 = [[1, 1], [1, 2], [- 1, - 1]]\<rparr>)))) 0 1 = None \<and>
   dd_inner (the (hash_to_index_map (fst (get_similar_samples_indices
        (fst (make_hash_table (projr (LSH_init example_draw 2 4 2))
              \<lparr>shape2 = (3, 2), rows2 = [[1, 1], [1, 2], [- 1, - 1]]\<rparr>))
        \<lparr>shape2 = (1, 2), rows2 = [[- 1, - 2]]\<rparr> 5)))) 0 1 = Some [] \<and>
   hash_to_index_map (fst (get_similar_samples_indices
        (fst (make_hash_table (projr (LSH_init example_draw 2 4 2))
              \<lparr>shape2 = (3, 2), rows2 = [[1, 1], [1, 2], [- 1, - 1]]\<rparr>))
        \<lparr>shape2 = (1, 2), rows2 = [[- 1, - 2]]\<rparr> 5))
   \<noteq> hash_to_index_map (fst (make_hash_table (projr (LSH_init example_draw 2 4 2))
              \<lparr>shape2 = (3, 2), rows2 = [[1, 1], [1, 2], [- 1, - 1]]\<rparr>))"
proof -
  let ?B = "fst (make_hash_table (projr (LSH_init example_draw 2 4 2))
              \<lparr>shape2 = (3, 2), rows2 = [[1, 1], [1, 2], [- 1, - 1::int]]\<rparr>)"
  let ?A = "fst (get_similar_samples_indices ?B \<lparr>shape2 = (1, 2), rows2 = [[- 1, - 2]]\<rparr> 5)"
  have b: "dd_inner (the (hash_to_index_map ?B)) 0 1 = None" by code_simp
  have a: "dd_inner (the (hash_to_index_map ?A)) 0 1 = Some []" by code_simp
  from a b have "hash_to_index_map ?A \<noteq> hash_to_index_map ?B" by auto
  with a b show ?thesis by simp
qed

text \<open>
  C10. On an index built from a valid corpus of \<open>N\<close> vectors (and queried any number of
  times since), whatever list a query returns has no identifier twice and holds only
  identifiers below \<open>N\<close>.
\<close>

theorem query_result_distinct_in_range:
  assumes "LSH_inv self" and "shape3 (planes self) = (U, D, P)"
    and "wf2 vectors" and "shape2 vectors = (N, D)"
    and "built = run_queries (fst (make_hash_table self vectors)) earlier"
    and "snd (get_similar_samples_indices built vector k) = Inr ids"
  shows "distinct ids \<and> (\<forall>i \<in> set ids. i < N)"
proof -
  from assms(1) have wf: "wf3 (planes self)" by (simp add: LSH_inv_def)
  from make_hash_table_result [OF wf assms(2,3,4)]
  obtain hv :: "int array2" and m
    where r: "make_hash_table self vectors = (self\<lparr>hash_to_index_map := Some m\<rparr>, Inr ())"
    and b: "\<And>u h. bucket m u h = filter (\<lambda>i. u < U \<and> rows2 hv ! u ! i = h) [0..<N]"
    by blast
  from r have "hash_to_index_map (fst (make_hash_table self vectors)) = Some m" by simp
  from run_queries_index [OF this, of earlier] assms(5)
  obtain m' where m': "hash_to_index_map built = Some m'" and g: "index_grows m m'" by auto
  from query_built [OF m', of vector k] assms(6)
  obtain sim where ids: "ids = ranked sim k"
    and sim: "set sim \<subseteq> (\<Union>u h. set (bucket m' u h))" by blast
  have "set (bucket m' u h) \<subseteq> {..<N}" for u h
    by (auto simp: index_grows_bucket [OF g] b)
  with sim have "set sim \<subseteq> {..<N}" by blast
  with ranked_subset [of sim k] have "set ids \<subseteq> {..<N}" unfolding ids by blast
  with ranked_distinct [of sim k] show ?thesis unfolding ids by auto
qed

theorem query_result_distinct_in_range_witness:
  "snd (get_similar_samples_indices
     (run_queries (fst (make_hash_table (projr (LSH_init example_draw 2 4 2))
                     \<lparr>shape2 = (3, 2), rows2 = [[1, 1], [1, 2], [- 1, - 1]]\<rparr>))
        [(\<lparr>shape2 = (1, 2), rows2 = [[- 1, - 2]]\<rparr>, 5)])
     \<lparr>shape2 = (1, 2), rows2 = [[1, 1]]\<rparr> 5) = Inr [0, 2] \<and>
   distinct [0, 2 :: nat] \<and> set [0, 2 :: nat] \<subseteq> {..<3}"
proof -
  let ?V = "\<lparr>shape2 = (3, 2), rows2 = [[1, 1], [1, 2], [- 1, - 1::int]]\<rparr>"
  let ?built = "run_queries (fst (make_hash_table (projr (LSH_init example_draw 2 4 2)) ?V))
        [(\<lparr>shape2 = (1, 2), rows2 = [[- 1, - 2]]\<rparr>, 5)]"
  have wf: "wf2 ?V" by (simp add: wf2_def)
  have s2: "shape2 ?V = (3, 2)" by simp
  have ev: "snd (get_similar_samples_indices ?built \<lparr>shape2 = (1, 2), rows2 = [[1, 1]]\<rparr> 5)
      = Inr [0, 2]"
    by code_simp
  from query_result_distinct_in_range [OF example_lsh(2) example_lsh(3) wf s2 refl ev] ev
  show ?thesis by auto
qed

subsection \<open>Ranking and ties\<close>

lemma Counter_append: "Counter (xs @ ys) = fold count_elem ys (Counter xs)"
  by (simp add: Counter_def)

lemma Counter_three_repeated:
  "Counter (concat (replicate (Suc n) [0, 1, 2 :: nat])) = [(0, Suc n), (1, Suc n), (2, Suc n)]"
proof (induction n)
  case 0
  show ?case by (simp add: Counter_def)
next
  case (Suc n)
  have "replicate (Suc (Suc n)) [0, 1, 2 :: nat] = replicate (Suc n) [0, 1, 2] @ [[0, 1, 2]]"
    using replicate_append_same [of "Suc n" "[0, 1, 2 :: nat]"] by simp
  then have "concat (replicate (Suc (Suc n)) [0, 1, 2 :: nat])
      = concat (replicate (Suc n) [0, 1, 2]) @ [0, 1, 2]"
    by (simp only: concat_append concat.simps append_Nil2)
  then show ?case by (simp only: Counter_append Suc.IH) simp
qed

lemma ranked_three_repeated:
  assumes "0 < U"
  shows "ranked (concat (replicate U [0, 1, 2 :: nat])) 5 = [0, 1, 2]"
proof -
  from assms obtain n where U: "U = Suc n" by (cases U) auto
  have "sort_key (\<lambda>(k, c). - int c) [(0 :: nat, Suc n), (1, Suc n), (2, Suc n)]
      = [(0, Suc n), (1, Suc n), (2, Suc n)]"
    by (rule sort_key_id_if_sorted) simp
  then show ?thesis
    unfolding U ranked_def most_common_def Counter_three_repeated by simp
qed

text \<open>
  With two or more universes the query on three identical vectors does return
  \<open>[0, 1, 2]\<close>: every universe contributes the bucket \<open>[0, 1, 2]\<close>, so the three counts
  are equal and the order of first occurrence decides.
\<close>

lemma identical_vectors_query:
  fixes self :: "'a::linordered_idom LSH"
  assumes "LSH_inv self" and "shape3 (planes self) = (U, D, P)" and "2 \<le> U"
    and "length v = D"
  shows "snd (get_similar_samples_indices
                (fst (make_hash_table self \<lparr>shape2 = (3, D), rows2 = [v, v, v]\<rparr>))
                \<lparr>shape2 = (1, D), rows2 = [v]\<rparr> 5) = Inr [0, 1, 2]"
proof -
  let ?corpus = "\<lparr>shape2 = (3, D), rows2 = [v, v, v]\<rparr>"
  let ?q = "\<lparr>shape2 = (1, D), rows2 = [v]\<rparr>"
  let ?c = "\<lambda>Y. pack (np_power2 [0..<P]) (map (plane_bit v Y) [0..<P])"
  let ?mats = "mats3 (planes self)"
  from assms(1) have wf: "wf3 (planes self)" by (simp add: LSH_inv_def)
  with assms(2) have len: "length ?mats = U" by (simp add: wf3_def)
  have wfc: "wf2 ?corpus" and wfq: "wf2 ?q" using assms(4) by (simp_all add: wf2_def)
  from make_hash_table_result [OF wf assms(2) wfc]
  obtain hv m where hv: "get_hash_values self ?corpus = Inr hv"
    and r: "make_hash_table self ?corpus = (self\<lparr>hash_to_index_map := Some m\<rparr>, Inr ())"
    and b: "\<And>u h. bucket m u h = filter (\<lambda>i. u < U \<and> rows2 hv ! u ! i = h) [0..<3]"
    by auto
  let ?built = "self\<lparr>hash_to_index_map := Some m\<rparr>"
  from hv get_hash_values_rows [OF wf assms(2), of ?corpus]
  have rows: "rows2 hv = map (\<lambda>Y. [?c Y, ?c Y, ?c Y]) ?mats" by auto
  have bk: "bucket m u (?c (?mats ! u)) = [0, 1, 2]" if "u < U" for u
  proof -
    from that len rows have "rows2 hv ! u = [?c (?mats ! u), ?c (?mats ! u), ?c (?mats ! u)]"
      by simp
    then have "\<forall>i \<in> set [0..<3]. rows2 hv ! u ! i = ?c (?mats ! u)"
      by (auto simp: nth_Cons split: nat.splits)
    with that have "filter (\<lambda>i. u < U \<and> rows2 hv ! u ! i = ?c (?mats ! u)) [0..<3] = [0..<3]"
      by (intro iffD2 [OF filter_id_conv]) simp
    then show ?thesis by (simp add: b upt_rec)
  qed
  have wfb: "wf3 (planes ?built)" and shb: "shape3 (planes ?built) = (U, D, P)"
    using wf assms(2) by simp_all
  from get_hash_values_rows [OF wfb shb, of ?q]
  have hq: "get_hash_values ?built ?q = Inr \<lparr>shape2 = (U, 1), rows2 = map (\<lambda>Y. [?c Y]) ?mats\<rparr>"
    by simp
  let ?hs = "map ?c ?mats"
  have sq: "np_squeeze \<lparr>shape2 = (U, 1), rows2 = map (\<lambda>Y. [?c Y]) ?mats\<rparr> = Arr1 ?hs"
    using assms(3) by (simp add: np_squeeze_def comp_def)
  have ne: "?hs \<noteq> []" using len assms(3) by auto
  obtain m' sim where c: "collect m (enumerate 0 ?hs) [] = (m', sim)"
    by (cases "collect m (enumerate 0 ?hs) []")
  from collect_result [OF c]
  have "sim = concat (map (\<lambda>(u, h). bucket m u h) (enumerate 0 ?hs))" by simp
  moreover have "map (\<lambda>(u, h). bucket m u h) (enumerate 0 ?hs) = replicate U [0, 1, 2]"
  proof -
    have "map (\<lambda>(u, h). bucket m u h) (enumerate 0 ?hs)
        = map (\<lambda>p. [0, 1, 2]) (enumerate 0 ?hs)"
    proof (rule map_cong [OF refl])
      fix p assume "p \<in> set (enumerate 0 ?hs)"
      then have "fst p < U" and "snd p = ?c (?mats ! fst p)"
        using len by (auto simp: in_set_enumerate_eq)
      then show "(case p of (u, h) \<Rightarrow> bucket m u h) = [0, 1, 2]"
        by (cases p) (simp add: bk)
    qed
    then show ?thesis using len by (simp add: map_replicate_const)
  qed
  ultimately have sim: "sim = concat (replicate U [0, 1, 2])" by simp
  have "get_similar_samples_indices ?built ?q 5
      = (?built\<lparr>hash_to_index_map := Some m'\<rparr>, Inr (ranked sim 5))"
    using hq sq ne c by (simp add: get_similar_samples_indices_def)
  moreover have "ranked sim 5 = [0, 1, 2]"
    unfolding sim using assms(3) by (intro ranked_three_repeated) simp
  ultimately show ?thesis using r by simp
qed

lemma count_elem_map:
  "distinct ys \<Longrightarrow>
   count_elem x (map (\<lambda>y. (y, c y)) ys)
     = (if x \<in> set ys then map (\<lambda>y. (y, if y = x then Suc (c y) else c y)) ys
        else map (\<lambda>y. (y, c y)) ys @ [(x, 1)])"
  by (induction ys) auto

lemma first_occurrences_snoc:
  "rev (remdups (rev (xs @ [x])))
     = (if x \<in> set xs then rev (remdups (rev xs)) else rev (remdups (rev xs)) @ [x])"
  by simp

lemma Counter_counts:
  "Counter xs = map (\<lambda>x. (x, count_list xs x)) (rev (remdups (rev xs)))"
proof (induction xs rule: rev_induct)
  case Nil
  show ?case by (simp add: Counter_def)
next
  case (snoc x xs)
  let ?F = "rev (remdups (rev xs))"
  have d: "distinct ?F" and s: "set ?F = set xs" by simp_all
  have "Counter (xs @ [x]) = count_elem x (map (\<lambda>y. (y, count_list xs y)) ?F)"
    by (simp add: Counter_append snoc.IH)
  also have "\<dots> = map (\<lambda>y. (y, count_list (xs @ [x]) y)) (rev (remdups (rev (xs @ [x]))))"
  proof (cases "x \<in> set xs")
    case True
    then show ?thesis
      unfolding count_elem_map [OF d] first_occurrences_snoc s by simp
  next
    case False
    have A: "map (\<lambda>y. (y, count_list (xs @ [x]) y)) ?F = map (\<lambda>y. (y, count_list xs y)) ?F"
    proof (rule map_cong [OF refl])
      fix y assume "y \<in> set ?F"
      with s False have "x \<noteq> y" by blast
      then show "(y, count_list (xs @ [x]) y) = (y, count_list xs y)" by simp
    qed
    have B: "count_list (xs @ [x]) x = 1" using False by simp
    have C: "rev (remdups (rev (xs @ [x]))) = ?F @ [x]" using False by simp
    from False s have "x \<notin> set ?F" by simp
    then have "count_elem x (map (\<lambda>y. (y, count_list xs y)) ?F)
        = map (\<lambda>y. (y, count_list xs y)) ?F @ [(x, 1)]"
      by (simp only: count_elem_map [OF d] if_False)
    also have "\<dots> = map (\<lambda>y. (y, count_list (xs @ [x]) y)) ?F @ [(x, count_list (xs @ [x]) x)]"
      by (simp only: A B)
    also have "\<dots> = map (\<lambda>y. (y, count_list (xs @ [x]) y)) (?F @ [x])"
      by (simp only: map_append list.map)
    finally show ?thesis by (simp only: C)
  qed
  finally show ?case .
qed

lemma insort_key_map:
  "insort_key f (g x) (map g xs) = map g (insort_key (\<lambda>y. f (g y)) x xs)"
  by (induction xs) simp_all

lemma sort_key_map: "sort_key f (map g xs) = map g (sort_key (\<lambda>y. f (g y)) xs)"
  by (induction xs) (simp_all add: insort_key_map)

text \<open>
  The ranking in full: the distinct identifiers in the order of their first occurrence,
  stably sorted by descending count, cut after \<open>n_most_common\<close>. So identifiers with the
  same count stay in the order of their first occurrence.
\<close>

lemma ranked_eq:
  "ranked xs k
     = take (nat k) (sort_key (\<lambda>x. - int (count_list xs x)) (rev (remdups (rev xs))))"
  by (simp add: ranked_def most_common_def Counter_counts sort_key_map take_map [symmetric]
      comp_def)

text \<open>
  C9. With one universe, \<open>np.squeeze\<close> turns the (1, 1) array of hashes into a scalar
  array and the loop over it raises \<open>TypeError\<close>: the query on three identical vectors
  does not return \<open>[0, 1, 2]\<close>.
\<close>

theorem identical_vectors_one_universe_TypeError:
  "snd (get_similar_samples_indices
     (fst (make_hash_table (projr (LSH_init example_draw 2 4 1))
             \<lparr>shape2 = (3, 2), rows2 = [[1, 2], [1, 2], [1, 2]]\<rparr>))
     \<lparr>shape2 = (1, 2), rows2 = [[1, 2]]\<rparr> 5) = Inl TypeError \<and>
   snd (get_similar_samples_indices
     (fst (make_hash_table (projr (LSH_init example_draw 2 4 1))
             \<lparr>shape2 = (3, 2), rows2 = [[1, 2], [1, 2], [1, 2]]\<rparr>))
     \<lparr>shape2 = (1, 2), rows2 = [[1, 2]]\<rparr> 5) \<noteq> Inr [0, 1, 2]"
  by code_simp

end
